theory Spec2Isabelle
  imports Main "HOL-Library.Word"
begin

section \<open>Strings (Go package strings)\<close>

text \<open>
  A Go string is a sequence of bytes, as \<^typ>\<open>string\<close> is. The three functions of
  package \<open>strings\<close> that \<open>bot.go\<close> calls are written out on bytes.
\<close>

fun HasPrefix :: "string \<Rightarrow> string \<Rightarrow> bool" where
  "HasPrefix s [] = True"
| "HasPrefix [] (p # ps) = False"
| "HasPrefix (c # cs) (p # ps) = (c = p \<and> HasPrefix cs ps)"

fun Contains :: "string \<Rightarrow> string \<Rightarrow> bool" where
  "Contains [] sub = (sub = [])"
| "Contains (c # cs) sub = (HasPrefix (c # cs) sub \<or> Contains cs sub)"

definition isASCII :: "char \<Rightarrow> bool" where
  "isASCII c = ((of_char c :: nat) < 128)"

definition lowerASCII :: "char \<Rightarrow> char" where
  "lowerASCII c =
     (case map_of (zip ''ABCDEFGHIJKLMNOPQRSTUVWXYZ'' ''abcdefghijklmnopqrstuvwxyz'') c of
        None \<Rightarrow> c
      | Some l \<Rightarrow> l)"

text \<open>
  \<open>strings.ToLower\<close> maps every rune through Go's Unicode tables. On text that is ASCII
  only, that is the bytewise map of \<open>A..Z\<close> to \<open>a..z\<close>. The tables for the other runes
  are not part of this repository: they are the parameter \<open>unicodeLower\<close>, about which
  nothing is assumed.
\<close>

definition ToLower :: "(string \<Rightarrow> string) \<Rightarrow> string \<Rightarrow> string" where
  "ToLower unicodeLower s =
     (if list_all isASCII s then map lowerASCII s else unicodeLower s)"

section \<open>The trigger patterns (Go package regexp)\<close>

text \<open>
  The four patterns of \<open>bot.go\<close> are sequences of two kinds of item: the assertion
  \<open>\b\<close>, and a character class with a repetition count \<open>{lo,hi}\<close> (a single
  character is a class repeated \<open>{1,1}\<close>). In Go's syntax \<open>\b\<close> is the ASCII word
  boundary and \<open>\d\<close> is \<open>[0-9]\<close>. All classes are sets of ASCII characters, so
  matching on bytes and matching on runes agree.
\<close>

datatype atom = WordBoundary | Class "char \<Rightarrow> bool" nat nat

definition isDigit :: "char \<Rightarrow> bool" where
  "isDigit c = (let n = (of_char c :: nat) in 48 \<le> n \<and> n \<le> 57)"

definition isHex :: "char \<Rightarrow> bool" where
  "isHex c =
     (let n = (of_char c :: nat)
      in (97 \<le> n \<and> n \<le> 102) \<or> (65 \<le> n \<and> n \<le> 70) \<or> (48 \<le> n \<and> n \<le> 57))"

definition isDot :: "char \<Rightarrow> bool" where
  "isDot c = (c = CHR ''.'')"

definition isWord :: "char \<Rightarrow> bool" where
  "isWord c =
     (let n = (of_char c :: nat)
      in (48 \<le> n \<and> n \<le> 57) \<or> (65 \<le> n \<and> n \<le> 90) \<or> n = 95 \<or> (97 \<le> n \<and> n \<le> 122))"

text \<open>
  \<open>\b\<close> holds between two positions when exactly one side is a word character; the
  start and the end of the text count as non-word. \<open>prev\<close> is the byte before the
  current position (\<open>None\<close> at the start), \<open>s\<close> the rest of the text.
\<close>

definition wordBefore :: "char option \<Rightarrow> bool" where
  "wordBefore prev = (case prev of None \<Rightarrow> False | Some c \<Rightarrow> isWord c)"

definition wordAfter :: "string \<Rightarrow> bool" where
  "wordAfter s = (case s of [] \<Rightarrow> False | c # cs \<Rightarrow> isWord c)"

definition atBoundary :: "char option \<Rightarrow> string \<Rightarrow> bool" where
  "atBoundary prev s = (wordBefore prev \<noteq> wordAfter s)"

fun matchHere :: "atom list \<Rightarrow> char option \<Rightarrow> string \<Rightarrow> bool" where
  "matchHere [] prev s = True"
| "matchHere (WordBoundary # as) prev s = (atBoundary prev s \<and> matchHere as prev s)"
| "matchHere (Class p lo hi # as) prev s =
     ((lo = 0 \<and> matchHere as prev s) \<or>
      (0 < hi \<and>
       (case s of
          [] \<Rightarrow> False
        | c # cs \<Rightarrow> p c \<and> matchHere (Class p (lo - 1) (hi - 1) # as) (Some c) cs)))"

text \<open>\<open>MatchString\<close> is not anchored: the pattern may match from any position.\<close>

fun matchFrom :: "atom list \<Rightarrow> char option \<Rightarrow> string \<Rightarrow> bool" where
  "matchFrom re prev [] = matchHere re prev []"
| "matchFrom re prev (c # cs) = (matchHere re prev (c # cs) \<or> matchFrom re (Some c) cs)"

definition MatchString :: "atom list \<Rightarrow> string \<Rightarrow> bool" where
  "MatchString re s = matchFrom re None s"

definition ipReg :: "atom list" where
  "ipReg =
     [WordBoundary, Class isDigit 1 3, Class isDot 1 1, Class isDigit 1 3, Class isDot 1 1,
      Class isDigit 1 3, Class isDot 1 1, Class isDigit 1 3, WordBoundary]"

definition md5Reg :: "atom list" where
  "md5Reg = [WordBoundary, Class isHex 32 32, WordBoundary]"

definition sha1Reg :: "atom list" where
  "sha1Reg = [WordBoundary, Class isHex 40 40, WordBoundary]"

definition sha256Reg :: "atom list" where
  "sha256Reg = [WordBoundary, Class isHex 64 64, WordBoundary]"

section \<open>Data of the collaborating packages\<close>

text \<open>
  Modelled from the spec: \<open>slack.Response\<close> and its accessors \<open>S\<close> and \<open>R\<close> are
  not in \<open>bot.go\<close>. A raw event is a JSON object with the team identifier as a string
  and a nested event object with \<open>type\<close>, \<open>subtype\<close>, \<open>user\<close>, \<open>text\<close> and
  \<open>channel\<close>. \<open>None\<close> is the nil response; \<open>S\<close> reads a string field and gives the
  empty string when the field is absent, \<open>R\<close> reads a nested object.
\<close>

datatype json = JString string | JObject "(string \<times> json) list"

type_synonym Response = "(string \<times> json) list option"

fun S :: "Response \<Rightarrow> string \<Rightarrow> string" where
  "S None key = []"
| "S (Some m) key = (case map_of m key of Some (JString v) \<Rightarrow> v | _ \<Rightarrow> [])"

fun R :: "Response \<Rightarrow> string \<Rightarrow> Response" where
  "R None key = None"
| "R (Some m) key = (case map_of m key of Some (JObject obj) \<Rightarrow> Some obj | _ \<Rightarrow> None)"

text \<open>
  Modelled from the spec: \<open>domain.Team\<close>, \<open>domain.Configuration\<close>,
  \<open>domain.Context\<close>, \<open>domain.WorkRequest\<close> and \<open>domain.Statistics\<close> are declared
  outside \<open>bot.go\<close>; the fields are the ones \<open>bot.go\<close> reads and writes. The
  configuration is the set of channel identifiers with a verbosity flag each. The message
  counter is a 64-bit integer: \<open>Messages++\<close> wraps.
\<close>

record Team =
  ID :: string
  ExternalID :: string
  BotToken :: string
  BotUserID :: string
  VTKey :: string
  XFEKey :: string
  XFEPass :: string

type_synonym Configuration = "(string \<times> bool) list"

record Context =
  ctxTeam :: string
  ctxUser :: string
  ctxType :: string
  ctxChannel :: string
  ctxOriginalUser :: string

record WorkRequest =
  wrMessage :: Response
  wrToken :: string
  wrVTKey :: string
  wrXFEKey :: string
  wrXFEPass :: string
  ReplyQueue :: string
  wrContext :: "Context option"

record Statistics =
  statTeam :: string
  Messages :: "64 word"

text \<open>
  Modelled from the spec: \<open>domain.WorkRequestFromMessage\<close> is not in \<open>bot.go\<close>. It
  builds the work item from the event and the tenant's credentials; the reply queue and
  the context are still unset.
\<close>

definition WorkRequestFromMessage ::
  "Response \<Rightarrow> string \<Rightarrow> string \<Rightarrow> string \<Rightarrow> string \<Rightarrow> WorkRequest" where
  "WorkRequestFromMessage msg token vtKey xfeKey xfePass =
     \<lparr>wrMessage = msg, wrToken = token, wrVTKey = vtKey, wrXFEKey = xfeKey,
      wrXFEPass = xfePass, ReplyQueue = [], wrContext = None\<rparr>"

text \<open>
  Modelled from the spec: \<open>Statistics.Reset\<close> is not in \<open>bot.go\<close>. It sets the
  counter back to zero.
\<close>

definition Reset :: "Statistics \<Rightarrow> Statistics" where
  "Reset v = v\<lparr>Messages := 0\<rparr>"

section \<open>The bot\<close>

text \<open>
  \<open>subscription\<close> and \<open>Bot\<close> are the two structs of \<open>bot.go\<close>. The slack client
  holds the bot token only. The locks and the stop channel order concurrent calls and are
  not state of a single call; the repository and the queue are the environment below.
\<close>

record subscription =
  subTeam :: Team
  configuration :: Configuration
  clientToken :: string
  started :: bool

record Bot =
  subscriptions :: "string \<rightharpoonup> subscription"
  stats :: "string \<rightharpoonup> Statistics"
  firstMessages :: "string \<rightharpoonup> bool"

text \<open>
  What a call does to the outside is recorded in order: log lines, accesses to the
  subscription map, calls to the repository and to the queue, and calls of the command
  handlers (\<open>joinChannels\<close>, \<open>handleVerbose\<close>, \<open>handleConfig\<close>, \<open>showHelp\<close>,
  \<open>handleVT\<close>, \<open>handleXFE\<close>).

  Modelled from the spec: the bodies of the handlers are not in \<open>bot.go\<close>. A handler
  works within the originating channel and reads and writes the tenant configuration
  through the repository; it does not update the subscription cache in place and it has no
  part in the statistics. So a handler is recorded as the call with its arguments (the
  subscription it also receives is the one just looked up) and leaves the bot as it is.
\<close>

datatype logline =
  WarnEmptyTeam | WarnLoadTeam | DebugHandling | DebugPushing | WarnPushWork
  | WarnStoreStatistics

datatype call =
  joinChannels string string string
  | handleVerbose string string string
  | handleConfig string Response
  | showHelp string string
  | handleVT string string string
  | handleXFE string string string

datatype effect =
  Log logline
  | CacheRead string
  | CacheWrite string
  | RepoTeamByExternalID string
  | RepoChannelsAndGroups string
  | RepoUpdateStatistics Statistics
  | QueuePushWork WorkRequest
  | Command call

text \<open>
  The environment of one call of \<open>HandleMessage\<close>: \<open>util.Hostname\<close>, the answers of
  the repository (\<open>None\<close> is an error), whether \<open>PushWork\<close> succeeds, and the Unicode
  tables of \<open>strings.ToLower\<close>.
\<close>

record env =
  Hostname :: string
  TeamByExternalID :: "string \<Rightarrow> Team option"
  ChannelsAndGroups :: "string \<Rightarrow> Configuration option"
  PushWork :: "WorkRequest \<Rightarrow> bool"
  unicodeLower :: "string \<Rightarrow> string"

text \<open>
  Modelled from the spec: \<open>relevantTeam\<close> is not in \<open>bot.go\<close>. On a hit the cache
  returns the entry without I/O; on a miss it returns nil.
\<close>

definition relevantTeam :: "Bot \<Rightarrow> string \<Rightarrow> subscription option \<times> effect list" where
  "relevantTeam b team = (subscriptions b team, [CacheRead team])"

definition loadSubscription ::
  "env \<Rightarrow> Bot \<Rightarrow> string \<Rightarrow> subscription option \<times> Bot \<times> effect list" where
  "loadSubscription env b team =
     (case TeamByExternalID env team of
        None \<Rightarrow> (None, b, [RepoTeamByExternalID team])
      | Some t \<Rightarrow>
          (case ChannelsAndGroups env (ID t) of
             None \<Rightarrow> (None, b, [RepoTeamByExternalID team, RepoChannelsAndGroups (ID t)])
           | Some c \<Rightarrow>
               (let teamSub = \<lparr>subTeam = t, configuration = c, clientToken = BotToken t,
                                started = False\<rparr>
                in (Some teamSub,
                    b\<lparr>subscriptions := (subscriptions b)(team \<mapsto> teamSub)\<rparr>,
                    [RepoTeamByExternalID team, RepoChannelsAndGroups (ID t),
                     CacheWrite team]))))"

text \<open>Lines 104 to 111: the cached subscription, or the one just loaded.\<close>

definition lookupSubscription ::
  "env \<Rightarrow> Bot \<Rightarrow> string \<Rightarrow> subscription option \<times> Bot \<times> effect list" where
  "lookupSubscription env b team =
     (case relevantTeam b team of
        (Some sub, tr) \<Rightarrow> (Some sub, b, tr)
      | (None, tr) \<Rightarrow>
          (case loadSubscription env b team of
             (None, b', tr') \<Rightarrow> (None, b', tr @ tr' @ [Log WarnLoadTeam])
           | (Some sub, b', tr') \<Rightarrow> (Some sub, b', tr @ tr')))"

definition isDirect :: "string \<Rightarrow> bool" where
  "isDirect channel = (case channel of [] \<Rightarrow> False | c # cs \<Rightarrow> c = CHR ''D'')"

text \<open>Lines 126 to 129: the condition under the negation.\<close>

definition isInternalCommand :: "(string \<Rightarrow> string) \<Rightarrow> Response \<Rightarrow> bool" where
  "isInternalCommand ul msg =
     (let text = S msg ''text''; ltext = ToLower ul text; channel = S msg ''channel''
      in S msg ''subtype'' = [] \<and> isDirect channel \<and>
         (HasPrefix ltext ''join '' \<or> HasPrefix ltext ''verbose '' \<or> ltext = ''config'' \<or>
          text = ''?'' \<or> HasPrefix ltext ''help'' \<or> HasPrefix ltext ''vt '' \<or>
          HasPrefix ltext ''xfe ''))"

text \<open>Lines 124 to 136: the value of \<open>push\<close> when line 138 reads it.\<close>

definition pushDecision :: "(string \<Rightarrow> string) \<Rightarrow> Response \<Rightarrow> bool" where
  "pushDecision ul msg =
     (let text = S msg ''text''; ltext = ToLower ul text
      in if \<not> isInternalCommand ul msg then
           (let push =
              (if S msg ''subtype'' = [] then
                 Contains ltext ''<http'' \<or> MatchString ipReg text \<or>
                 MatchString md5Reg text \<or> MatchString sha1Reg text \<or>
                 MatchString sha256Reg text
               else False)
            in if S msg ''subtype'' = ''file_share'' then True else push)
         else False)"

text \<open>Lines 149 to 164: the handler that runs, if any. The cases compare \<open>text\<close>.\<close>

definition dispatch :: "string \<Rightarrow> Response \<Rightarrow> call list" where
  "dispatch team msg =
     (let text = S msg ''text''; channel = S msg ''channel''
      in if isDirect channel then
           (if HasPrefix text ''join '' then [joinChannels team text channel]
            else if HasPrefix text ''verbose '' then [handleVerbose team text channel]
            else if text = ''config'' then [handleConfig team msg]
            else if text = ''?'' \<or> HasPrefix text ''help'' then [showHelp team channel]
            else if HasPrefix text ''vt '' then [handleVT team text channel]
            else if HasPrefix text ''xfe '' then [handleXFE team text channel]
            else [])
         else [])"

text \<open>Lines 165 to 172: the counter of the team, created on first use.\<close>

definition countMessage :: "string \<Rightarrow> subscription \<Rightarrow> Bot \<Rightarrow> Bot" where
  "countMessage team sub b =
     (let st = (case stats b team of
                  None \<Rightarrow> \<lparr>statTeam = ID (subTeam sub), Messages = 0\<rparr>
                | Some st \<Rightarrow> st)
      in b\<lparr>stats := (stats b)(team \<mapsto> st\<lparr>Messages := Messages st + 1\<rparr>)\<rparr>)"

text \<open>Lines 112 to 174: the \<open>switch\<close> on the event's type.\<close>

definition handleEvent ::
  "env \<Rightarrow> string \<Rightarrow> subscription \<Rightarrow> Response \<Rightarrow> Bot \<Rightarrow> Bot \<times> effect list" where
  "handleEvent env team sub msg b =
     (let msgType = S msg ''type''
      in if msgType = ''message'' then
           (let msgUser = S msg ''user''
            in if msgUser = BotUserID (subTeam sub) then (b, [])
               else
                 (let channel = S msg ''channel''
                  in if pushDecision (unicodeLower env) msg then
                       (let t = subTeam sub;
                            ctx = \<lparr>ctxTeam = team, ctxUser = msgUser, ctxType = msgType,
                                   ctxChannel = channel, ctxOriginalUser = msgUser\<rparr>;
                            workReq = (WorkRequestFromMessage msg (BotToken t) (VTKey t)
                                         (XFEKey t) (XFEPass t))
                                      \<lparr>ReplyQueue := Hostname env, wrContext := Some ctx\<rparr>
                        in (b, [Log DebugHandling, Log DebugPushing, QueuePushWork workReq] @
                               (if PushWork env workReq then [] else [Log WarnPushWork])))
                     else (countMessage team sub b, map Command (dispatch team msg))))
         else (b, []))"

definition HandleMessage :: "env \<Rightarrow> Response \<Rightarrow> Bot \<Rightarrow> Bot \<times> effect list" where
  "HandleMessage env msg b =
     (if msg = None then (b, [])
      else
        (let team = S msg ''team_id''
         in if team = [] then (b, [Log WarnEmptyTeam])
            else
              (case lookupSubscription env b team of
                 (None, b', tr) \<Rightarrow> (b', tr)
               | (Some sub, b', tr) \<Rightarrow>
                   (let (b'', tr') = handleEvent env team sub (R msg ''event'') b'
                    in (b'', tr @ tr')))))"

text \<open>
  \<open>storeStatistics\<close> ranges over the map of counters. Go leaves the order of a map
  iteration open, so the order is an argument: \<open>order\<close> lists the keys as the runtime
  yields them. \<open>ok k\<close> says whether the call of \<open>UpdateStatistics\<close> made for the
  counter under key \<open>k\<close> returns no error.
\<close>

fun storeLoop ::
  "(string \<Rightarrow> bool) \<Rightarrow> (string \<rightharpoonup> Statistics) \<Rightarrow> string list \<Rightarrow>
   (string \<rightharpoonup> Statistics) \<times> effect list" where
  "storeLoop ok st [] = (st, [])"
| "storeLoop ok st (k # ks) =
     (case st k of
        None \<Rightarrow> storeLoop ok st ks
      | Some v \<Rightarrow>
          if ok k then
            (let (st', tr) = storeLoop ok (st(k \<mapsto> Reset v)) ks
             in (st', RepoUpdateStatistics v # tr))
          else (st, [RepoUpdateStatistics v, Log WarnStoreStatistics]))"

definition storeStatistics ::
  "(string \<Rightarrow> bool) \<Rightarrow> string list \<Rightarrow> Bot \<Rightarrow> Bot \<times> effect list" where
  "storeStatistics ok order b =
     (let (st, tr) = storeLoop ok (stats b) order in (b\<lparr>stats := st\<rparr>, tr))"

section \<open>Reading a trace\<close>

text \<open>The work items pushed to the queue and the handlers called, in order.\<close>

definition pushes :: "effect list \<Rightarrow> WorkRequest list" where
  "pushes tr = concat (map (\<lambda>e. case e of QueuePushWork w \<Rightarrow> [w] | _ \<Rightarrow> []) tr)"

definition commands :: "effect list \<Rightarrow> call list" where
  "commands tr = concat (map (\<lambda>e. case e of Command c \<Rightarrow> [c] | _ \<Rightarrow> []) tr)"

text \<open>The records handed to \<open>UpdateStatistics\<close>, in order.\<close>

definition persistAttempts :: "effect list \<Rightarrow> Statistics list" where
  "persistAttempts tr =
     concat (map (\<lambda>e. case e of RepoUpdateStatistics v \<Rightarrow> [v] | _ \<Rightarrow> []) tr)"

section \<open>Concrete inputs\<close>

text \<open>
  One tenant, already cached, a second one known to the repository only, and events for
  them; the theorems below are run on these.
\<close>

definition acme :: Team where
  "acme = \<lparr>ID = ''1'', ExternalID = ''T1'', BotToken = ''xoxb-1'', BotUserID = ''UBOT'',
           VTKey = ''vt-key'', XFEKey = ''xfe-key'', XFEPass = ''xfe-pass''\<rparr>"

definition acmeSub :: subscription where
  "acmeSub = \<lparr>subTeam = acme, configuration = [], clientToken = ''xoxb-1'',
              started = False\<rparr>"

definition globex :: Team where
  "globex = \<lparr>ID = ''2'', ExternalID = ''T2'', BotToken = ''xoxb-2'', BotUserID = ''UBOT2'',
             VTKey = ''vt-key2'', XFEKey = ''xfe-key2'', XFEPass = ''xfe-pass2''\<rparr>"

definition bot1 :: Bot where
  "bot1 = \<lparr>subscriptions = [''T1'' \<mapsto> acmeSub],
           stats = [''T2'' \<mapsto> \<lparr>statTeam = ''2'', Messages = 4\<rparr>],
           firstMessages = Map.empty\<rparr>"

definition env1 :: env where
  "env1 = \<lparr>Hostname = ''bot-host-1'',
           TeamByExternalID = (\<lambda>t. if t = ''T2'' then Some globex else None),
           ChannelsAndGroups = (\<lambda>i. if i = ''2'' then Some [] else None),
           PushWork = (\<lambda>w. False),
           unicodeLower = (\<lambda>s. s)\<rparr>"

definition event :: "string \<Rightarrow> string \<Rightarrow> string \<Rightarrow> string \<Rightarrow> (string \<times> json) list" where
  "event subtype user channel text =
     [(''type'', JString ''message''), (''subtype'', JString subtype),
      (''user'', JString user), (''channel'', JString channel), (''text'', JString text)]"

definition rawEvent :: "string \<Rightarrow> (string \<times> json) list \<Rightarrow> Response" where
  "rawEvent team ev = Some [(''team_id'', JString team), (''event'', JObject ev)]"

definition md5Text :: string where
  "md5Text = ''d41d8cd98f00b204e9800998ecf8427e''"

definition sha1Text :: string where
  "sha1Text = ''da39a3ee5e6b4b0d3255bfef95601890afd80709''"

definition globexSub :: subscription where
  "globexSub = \<lparr>subTeam = globex, configuration = [], clientToken = ''xoxb-2'',
                started = False\<rparr>"

definition bot1Loaded :: Bot where
  "bot1Loaded = bot1\<lparr>subscriptions := (subscriptions bot1)(''T2'' \<mapsto> globexSub)\<rparr>"

definition sha1Request :: WorkRequest where
  "sha1Request =
     \<lparr>wrMessage = Some (event [] ''U7'' ''C1'' sha1Text), wrToken = ''xoxb-2'',
      wrVTKey = ''vt-key2'', wrXFEKey = ''xfe-key2'', wrXFEPass = ''xfe-pass2'',
      ReplyQueue = ''bot-host-1'',
      wrContext = Some \<lparr>ctxTeam = ''T2'', ctxUser = ''U7'', ctxType = ''message'',
                         ctxChannel = ''C1'', ctxOriginalUser = ''U7''\<rparr>\<rparr>"

definition twoCounters :: Bot where
  "twoCounters =
     \<lparr>subscriptions = Map.empty,
      stats = [''T1'' \<mapsto> \<lparr>statTeam = ''1'', Messages = 5\<rparr>,
               ''T2'' \<mapsto> \<lparr>statTeam = ''2'', Messages = 7\<rparr>],
      firstMessages = Map.empty\<rparr>"

section \<open>Reading traces and the frame of the subscription lookup\<close>


lemmas regexp_defs =
  MatchString_def ipReg_def md5Reg_def sha1Reg_def sha256Reg_def atBoundary_def
  wordBefore_def wordAfter_def isWord_def isDigit_def isDot_def isHex_def

lemmas input_defs =
  acme_def acmeSub_def globex_def bot1_def env1_def event_def rawEvent_def md5Text_def
  sha1Text_def twoCounters_def globexSub_def bot1Loaded_def sha1Request_def

lemma pushes_simps [simp]:
  "pushes [] = []" "pushes (QueuePushWork w # es) = w # pushes es"
  "pushes (Log l # es) = pushes es" "pushes (CacheRead t # es) = pushes es"
  "pushes (CacheWrite t # es) = pushes es" "pushes (RepoTeamByExternalID t # es) = pushes es"
  "pushes (RepoChannelsAndGroups t # es) = pushes es"
  "pushes (RepoUpdateStatistics v # es) = pushes es" "pushes (Command c # es) = pushes es"
  "pushes (xs @ ys) = pushes xs @ pushes ys"
  by (simp_all add: pushes_def)

lemma commands_simps [simp]:
  "commands [] = []" "commands (Command c # es) = c # commands es"
  "commands (Log l # es) = commands es" "commands (CacheRead t # es) = commands es"
  "commands (CacheWrite t # es) = commands es"
  "commands (RepoTeamByExternalID t # es) = commands es"
  "commands (RepoChannelsAndGroups t # es) = commands es"
  "commands (RepoUpdateStatistics v # es) = commands es"
  "commands (QueuePushWork w # es) = commands es"
  "commands (xs @ ys) = commands xs @ commands ys"
  by (simp_all add: commands_def)

lemma commands_map_Command [simp]: "commands (map Command cs) = cs"
  by (induction cs) (simp_all add: commands_def)

lemma pushes_map_Command [simp]: "pushes (map Command cs) = []"
  by (induction cs) (simp_all add: pushes_def)

lemma lookupSubscription_frame:
  assumes "lookupSubscription env b team = (r, b', tr)"
  shows "stats b' = stats b" and "pushes tr = []" and "commands tr = []"
  using assms
  by (auto simp: lookupSubscription_def relevantTeam_def loadSubscription_def Let_def
        pushes_simps commands_simps split: option.splits)

lemma handleEvent_no_push:
  "\<not> pushDecision (unicodeLower env) ev \<Longrightarrow> pushes (snd (handleEvent env team sub ev b)) = []"
  by (simp add: handleEvent_def Let_def pushes_simps pushes_map_Command)

lemma HandleMessage_found:
  assumes "msg \<noteq> None" and "S msg ''team_id'' \<noteq> []"
    and "lookupSubscription env b (S msg ''team_id'') = (Some sub, b', tr)"
  shows "HandleMessage env msg b =
           (fst (handleEvent env (S msg ''team_id'') sub (R msg ''event'') b'),
            tr @ snd (handleEvent env (S msg ''team_id'') sub (R msg ''event'') b'))"
  using assms by (auto simp: HandleMessage_def Let_def split: prod.splits)

lemma HandleMessage_not_found:
  assumes "msg \<noteq> None" and "S msg ''team_id'' \<noteq> []"
    and "lookupSubscription env b (S msg ''team_id'') = (None, b', tr)"
  shows "HandleMessage env msg b = (b', tr)"
  using assms by (auto simp: HandleMessage_def Let_def)

lemma HandleMessage_no_push:
  assumes "\<not> pushDecision (unicodeLower env) (R msg ''event'')"
  shows "pushes (snd (HandleMessage env msg b)) = []"
proof (cases "msg = None \<or> S msg ''team_id'' = []")
  case True
  then show ?thesis by (auto simp: HandleMessage_def Let_def)
next
  case False
  obtain r b' tr where lk: "lookupSubscription env b (S msg ''team_id'') = (r, b', tr)"
    by (cases "lookupSubscription env b (S msg ''team_id'')") auto
  have tr: "pushes tr = []" using lk by (rule lookupSubscription_frame)
  show ?thesis
  proof (cases r)
    case None
    with False lk tr show ?thesis by (simp add: HandleMessage_not_found)
  next
    case (Some sub)
    with False lk tr handleEvent_no_push [OF assms] show ?thesis
      by (simp add: HandleMessage_found)
  qed
qed

section \<open>Events that are dropped before classification\<close>

text \<open>
  C10. \<open>HandleMessage\<close> on a nil message returns at once: the bot is unchanged and the
  trace is empty, so nothing is logged, no cache or repository is touched, nothing is
  pushed and no counter changes.
\<close>

theorem HandleMessage_nil: "HandleMessage env None b = (b, [])"
  by (simp add: HandleMessage_def)

text \<open>
  C6. An event whose team identifier is absent or is the empty string is dropped with one
  log line: the bot (cache and counters) is unchanged and the trace holds the warning
  only, so there is no cache access, no repository call and no push.
\<close>

theorem HandleMessage_empty_team:
  assumes "map_of m ''team_id'' = None \<or> map_of m ''team_id'' = Some (JString [])"
  shows "HandleMessage env (Some m) b = (b, [Log WarnEmptyTeam])"
  using assms by (auto simp: HandleMessage_def)

theorem HandleMessage_empty_team_witness:
  "HandleMessage env1 (Some [(''event'', JObject (event [] ''U1'' ''C1'' md5Text))]) bot1
     = (bot1, [Log WarnEmptyTeam])
   \<and> HandleMessage env1 (rawEvent [] (event [] ''U1'' ''C1'' md5Text)) bot1
     = (bot1, [Log WarnEmptyTeam])"
  using
    HandleMessage_empty_team
      [of "[(''event'', JObject (event [] ''U1'' ''C1'' md5Text))]" env1 bot1]
    HandleMessage_empty_team
      [of "[(''team_id'', JString []), (''event'', JObject (event [] ''U1'' ''C1'' md5Text))]"
          env1 bot1]
  by (simp add: rawEvent_def)

text \<open>
  C5. A message event whose sender is the bot user of the tenant's subscription is a no-op
  after the subscription lookup: the call returns the bot and the trace of the lookup, the
  counters are the ones before the call, nothing is pushed and no handler runs.
\<close>

theorem HandleMessage_own_message:
  assumes "msg \<noteq> None" and "S msg ''team_id'' \<noteq> []"
    and "lookupSubscription env b (S msg ''team_id'') = (Some sub, b', tr)"
    and "S (R msg ''event'') ''type'' = ''message''"
    and "S (R msg ''event'') ''user'' = BotUserID (subTeam sub)"
  shows "HandleMessage env msg b = (b', tr) \<and> stats b' = stats b \<and>
         pushes tr = [] \<and> commands tr = []"
  using assms lookupSubscription_frame [OF assms(3)]
  by (simp add: HandleMessage_found handleEvent_def)

theorem HandleMessage_own_message_witness:
  "lookupSubscription env1 bot1 ''T1'' = (Some acmeSub, bot1, [CacheRead ''T1'']) \<and>
   BotUserID (subTeam acmeSub) = ''UBOT'' \<and>
   HandleMessage env1 (rawEvent ''T1'' (event [] ''UBOT'' ''D1'' ''join #general'')) bot1
     = (bot1, [CacheRead ''T1''])"
  using HandleMessage_own_message
    [of "rawEvent ''T1'' (event [] ''UBOT'' ''D1'' ''join #general'')" env1 bot1 acmeSub bot1
        "[CacheRead ''T1'']"]
  by (simp add: lookupSubscription_def relevantTeam_def input_defs)

section \<open>Internal commands have priority over triggers\<close>

text \<open>
  The source compares the text itself with \<open>?\<close> and the lower-cased text with the
  other commands. On ASCII text the two comparisons with \<open>?\<close> agree.
\<close>

lemma lowerASCII_cases:
  "lowerASCII c = c \<or> lowerASCII c \<in> set ''abcdefghijklmnopqrstuvwxyz''"
proof (cases "map_of (zip ''ABCDEFGHIJKLMNOPQRSTUVWXYZ'' ''abcdefghijklmnopqrstuvwxyz'') c")
  case None
  then show ?thesis by (simp only: lowerASCII_def option.case simp_thms)
next
  case (Some l)
  then have "l \<in> set ''abcdefghijklmnopqrstuvwxyz''"
    by (metis map_of_SomeD set_zip_rightD)
  with Some show ?thesis by (simp only: lowerASCII_def option.case simp_thms)
qed

lemma lowerASCII_question: "lowerASCII c = CHR ''?'' \<Longrightarrow> c = CHR ''?''"
  using lowerASCII_cases [of c] by auto

lemma ToLower_question:
  assumes "list_all isASCII t"
  shows "(ToLower ul t = ''?'') = (t = ''?'')"
proof
  assume "ToLower ul t = ''?''"
  with assms have "map lowerASCII t = ''?''" by (simp add: ToLower_def)
  then obtain c where "t = [c]" and "lowerASCII c = CHR ''?''" by auto
  then show "t = ''?''" by (simp add: lowerASCII_question)
next
  assume "t = ''?''"
  then show "ToLower ul t = ''?''" by (simp add: ToLower_def isASCII_def lowerASCII_def)
qed

text \<open>
  C1. A message event with empty subtype in a direct-message channel (first character
  \<open>D\<close>) whose lower-cased text starts with \<open>join \<close>, \<open>verbose \<close>, \<open>vt \<close> or
  \<open>xfe \<close>, or is \<open>config\<close>, or is \<open>?\<close>, or starts with \<open>help\<close>, is an internal
  command and never a trigger: \<open>push\<close> stays false and no work item is pushed, whatever
  else the text contains (the witness carries a 32-character digest that \<open>md5Reg\<close>
  matches).
\<close>

theorem command_never_pushed:
  assumes "ev = R msg ''event''" and "ltext = ToLower (unicodeLower env) (S ev ''text'')"
    and "S ev ''type'' = ''message''" and "S ev ''subtype'' = []"
    and "isDirect (S ev ''channel'')"
    and "HasPrefix ltext ''join '' \<or> HasPrefix ltext ''verbose '' \<or> HasPrefix ltext ''vt '' \<or>
         HasPrefix ltext ''xfe '' \<or> ltext = ''config'' \<or> S ev ''text'' = ''?'' \<or>
         HasPrefix ltext ''help''"
  shows "isInternalCommand (unicodeLower env) ev \<and> \<not> pushDecision (unicodeLower env) ev \<and>
         pushes (snd (HandleMessage env msg b)) = []"
proof -
  have cmd: "isInternalCommand (unicodeLower env) ev"
    using assms(2,4,5,6) by (auto simp: isInternalCommand_def Let_def)
  then have np: "\<not> pushDecision (unicodeLower env) ev"
    by (simp add: pushDecision_def Let_def)
  then have "pushes (snd (HandleMessage env msg b)) = []"
    unfolding assms(1) by (rule HandleMessage_no_push)
  with cmd np show ?thesis by simp
qed

theorem command_never_pushed_witness:
  "MatchString md5Reg (''verbose #alerts '' @ md5Text) \<and>
   isInternalCommand (unicodeLower env1) (Some (event [] ''U1'' ''D1'' (''verbose #alerts '' @ md5Text))) \<and>
   \<not> pushDecision (unicodeLower env1) (Some (event [] ''U1'' ''D1'' (''verbose #alerts '' @ md5Text))) \<and>
   pushes (snd (HandleMessage env1
      (rawEvent ''T1'' (event [] ''U1'' ''D1'' (''verbose #alerts '' @ md5Text))) bot1)) = []"
proof -
  have re: "MatchString md5Reg (''verbose #alerts '' @ md5Text)"
    by (simp add: regexp_defs md5Text_def)
  show ?thesis
    using re command_never_pushed
      [of "Some (event [] ''U1'' ''D1'' (''verbose #alerts '' @ md5Text))"
          "rawEvent ''T1'' (event [] ''U1'' ''D1'' (''verbose #alerts '' @ md5Text))"
          "''verbose #alerts '' @ md5Text" env1 bot1]
    by (simp add: input_defs ToLower_def isASCII_def lowerASCII_def isDirect_def)
qed

section \<open>Triggers are dispatched to the work queue\<close>

text \<open>
  C7. For an event classified trigger (\<open>push\<close> is true) exactly one work item is built
  and pushed. It carries the tenant's credentials, its reply queue is this process's host
  name, and its context names the event's sender both as user and as original user. When
  the push fails, one warning is logged and nothing else happens: no second push, no
  handler, no counter.
\<close>

theorem trigger_pushes_one_work_item:
  assumes "msg \<noteq> None" and "team = S msg ''team_id''" and "team \<noteq> []"
    and "ev = R msg ''event''"
    and "lookupSubscription env b team = (Some sub, b', tr)"
    and "S ev ''type'' = ''message''"
    and "S ev ''user'' \<noteq> BotUserID (subTeam sub)"
    and "pushDecision (unicodeLower env) ev"
    and "w = \<lparr>wrMessage = ev, wrToken = BotToken (subTeam sub), wrVTKey = VTKey (subTeam sub),
              wrXFEKey = XFEKey (subTeam sub), wrXFEPass = XFEPass (subTeam sub),
              ReplyQueue = Hostname env,
              wrContext = Some \<lparr>ctxTeam = team, ctxUser = S ev ''user'', ctxType = ''message'',
                                 ctxChannel = S ev ''channel'',
                                 ctxOriginalUser = S ev ''user''\<rparr>\<rparr>"
  shows "HandleMessage env msg b =
           (b', tr @ [Log DebugHandling, Log DebugPushing, QueuePushWork w] @
                (if PushWork env w then [] else [Log WarnPushWork])) \<and>
         pushes (snd (HandleMessage env msg b)) = [w] \<and>
         commands (snd (HandleMessage env msg b)) = [] \<and>
         stats b' = stats b"
proof -
  have lk: "lookupSubscription env b (S msg ''team_id'') = (Some sub, b', tr)"
    using assms(2,5) by simp
  have he: "handleEvent env team sub ev b' =
              (b', [Log DebugHandling, Log DebugPushing, QueuePushWork w] @
                   (if PushWork env w then [] else [Log WarnPushWork]))"
    using assms(6,7,8,9) by (simp add: handleEvent_def Let_def WorkRequestFromMessage_def)
  have hm: "HandleMessage env msg b =
           (b', tr @ [Log DebugHandling, Log DebugPushing, QueuePushWork w] @
                (if PushWork env w then [] else [Log WarnPushWork]))"
    using HandleMessage_found [OF assms(1) _ lk] assms(2,3,4) he by simp
  show ?thesis
    using lookupSubscription_frame [OF lk] by (simp add: hm)
qed

theorem trigger_pushes_one_work_item_witness:
  "lookupSubscription env1 bot1 ''T2'' =
     (Some globexSub, bot1Loaded,
      [CacheRead ''T2'', RepoTeamByExternalID ''T2'', RepoChannelsAndGroups ''2'',
       CacheWrite ''T2'']) \<and>
   pushDecision (unicodeLower env1) (Some (event [] ''U7'' ''C1'' sha1Text)) \<and>
   \<not> PushWork env1 sha1Request \<and>
   HandleMessage env1 (rawEvent ''T2'' (event [] ''U7'' ''C1'' sha1Text)) bot1 =
     (bot1Loaded,
      [CacheRead ''T2'', RepoTeamByExternalID ''T2'', RepoChannelsAndGroups ''2'',
       CacheWrite ''T2'', Log DebugHandling, Log DebugPushing, QueuePushWork sha1Request,
       Log WarnPushWork]) \<and>
   ReplyQueue sha1Request = Hostname env1 \<and>
   stats bot1Loaded = stats bot1"
proof -
  have lk: "lookupSubscription env1 bot1 ''T2'' =
     (Some globexSub, bot1Loaded,
      [CacheRead ''T2'', RepoTeamByExternalID ''T2'', RepoChannelsAndGroups ''2'',
       CacheWrite ''T2''])"
    by (simp add: lookupSubscription_def relevantTeam_def loadSubscription_def Let_def
          input_defs)
  have pd: "pushDecision (unicodeLower env1) (Some (event [] ''U7'' ''C1'' sha1Text))"
    by (simp add: pushDecision_def isInternalCommand_def isDirect_def Let_def regexp_defs
          input_defs)
  have w: "sha1Request =
     \<lparr>wrMessage = Some (event [] ''U7'' ''C1'' sha1Text),
      wrToken = BotToken (subTeam globexSub), wrVTKey = VTKey (subTeam globexSub),
      wrXFEKey = XFEKey (subTeam globexSub), wrXFEPass = XFEPass (subTeam globexSub),
      ReplyQueue = Hostname env1,
      wrContext = Some \<lparr>ctxTeam = ''T2'',
                         ctxUser = S (Some (event [] ''U7'' ''C1'' sha1Text)) ''user'',
                         ctxType = ''message'',
                         ctxChannel = S (Some (event [] ''U7'' ''C1'' sha1Text)) ''channel'',
                         ctxOriginalUser =
                           S (Some (event [] ''U7'' ''C1'' sha1Text)) ''user''\<rparr>\<rparr>"
    by (simp add: sha1Request_def globexSub_def globex_def env1_def event_def)
  have "HandleMessage env1 (rawEvent ''T2'' (event [] ''U7'' ''C1'' sha1Text)) bot1 =
          (bot1Loaded,
           [CacheRead ''T2'', RepoTeamByExternalID ''T2'', RepoChannelsAndGroups ''2'',
            CacheWrite ''T2''] @
           [Log DebugHandling, Log DebugPushing, QueuePushWork sha1Request] @
           (if PushWork env1 sha1Request then [] else [Log WarnPushWork]))"
    using trigger_pushes_one_work_item
      [of "rawEvent ''T2'' (event [] ''U7'' ''C1'' sha1Text)" "''T2''"
          "Some (event [] ''U7'' ''C1'' sha1Text)" env1 bot1 globexSub bot1Loaded
          "[CacheRead ''T2'', RepoTeamByExternalID ''T2'', RepoChannelsAndGroups ''2'',
            CacheWrite ''T2'']" sha1Request, OF _ _ _ _ lk _ _ pd w]
    by (simp add: rawEvent_def event_def globexSub_def globex_def)
  then show ?thesis
    using lk pd by (simp add: env1_def sha1Request_def bot1Loaded_def)
qed

section \<open>Classification and dispatch read different texts\<close>

text \<open>
  C9. The check for an internal command reads the lower-cased text, the dispatch to the
  handlers reads the text as it came. Take a message of another sender than the bot, with
  empty subtype, in a direct-message channel, whose lower-cased text has the shape of a
  command (it starts with \<open>join \<close>, \<open>verbose \<close>, \<open>help\<close>, \<open>vt \<close> or \<open>xfe \<close>, or
  is \<open>config\<close>) while the text as it came matches no case of the dispatch, as the
  upper-case \<open>JOIN #general\<close> does. Then the check classifies the event as an internal
  command, so nothing is pushed; the dispatch finds no handler, so none runs; and the
  tenant's counter still goes up by one.
\<close>

theorem miscased_command_counted_not_handled:
  assumes "msg \<noteq> None" and "team = S msg ''team_id''" and "team \<noteq> []"
    and "ev = R msg ''event''"
    and "lookupSubscription env b team = (Some sub, b', tr)"
    and "S ev ''type'' = ''message''"
    and "S ev ''user'' \<noteq> BotUserID (subTeam sub)"
    and "S ev ''subtype'' = []" and "isDirect (S ev ''channel'')"
    and "text = S ev ''text''" and "ltext = ToLower (unicodeLower env) text"
    and "HasPrefix ltext ''join '' \<or> HasPrefix ltext ''verbose '' \<or> ltext = ''config'' \<or>
         HasPrefix ltext ''help'' \<or> HasPrefix ltext ''vt '' \<or> HasPrefix ltext ''xfe ''"
    and "\<not> HasPrefix text ''join ''" and "\<not> HasPrefix text ''verbose ''"
    and "text \<noteq> ''config''" and "text \<noteq> ''?''" and "\<not> HasPrefix text ''help''"
    and "\<not> HasPrefix text ''vt ''" and "\<not> HasPrefix text ''xfe ''"
  shows "isInternalCommand (unicodeLower env) ev \<and>
         \<not> pushDecision (unicodeLower env) ev \<and>
         dispatch team ev = [] \<and>
         HandleMessage env msg b = (countMessage team sub b', tr) \<and>
         pushes (snd (HandleMessage env msg b)) = [] \<and>
         commands (snd (HandleMessage env msg b)) = [] \<and>
         stats (fst (HandleMessage env msg b)) =
           (stats b)(team \<mapsto>
             (case stats b team of
                None \<Rightarrow> \<lparr>statTeam = ID (subTeam sub), Messages = 1\<rparr>
              | Some st \<Rightarrow> st\<lparr>Messages := Messages st + 1\<rparr>))"
proof -
  have lk: "lookupSubscription env b (S msg ''team_id'') = (Some sub, b', tr)"
    using assms(2,5) by simp
  have ic: "isInternalCommand (unicodeLower env) ev"
    using assms(8,9,10,11,12) by (auto simp: isInternalCommand_def Let_def)
  have np: "\<not> pushDecision (unicodeLower env) ev"
    using ic by (simp add: pushDecision_def Let_def)
  have dp: "dispatch team ev = []"
    using assms(10,13,14,15,16,17,18,19) by (simp add: dispatch_def Let_def)
  have he: "handleEvent env team sub ev b' = (countMessage team sub b', [])"
    using assms(6,7) np dp by (simp add: handleEvent_def Let_def)
  have hm: "HandleMessage env msg b = (countMessage team sub b', tr)"
    using HandleMessage_found [OF assms(1) _ lk] assms(2,3,4) he by simp
  have st: "stats b' = stats b" using lk by (rule lookupSubscription_frame)
  have cnt: "stats (countMessage team sub b') =
           (stats b)(team \<mapsto>
             (case stats b team of
                None \<Rightarrow> \<lparr>statTeam = ID (subTeam sub), Messages = 1\<rparr>
              | Some st \<Rightarrow> st\<lparr>Messages := Messages st + 1\<rparr>))"
    using st by (simp add: countMessage_def Let_def split: option.splits)
  show ?thesis
    using ic np dp lookupSubscription_frame(2,3) [OF lk] cnt by (simp add: hm)
qed

theorem miscased_command_counted_not_handled_witness:
  "ToLower (unicodeLower env1) ''JOIN #general'' = ''join #general'' \<and>
   isInternalCommand (unicodeLower env1) (Some (event [] ''U1'' ''D1'' ''JOIN #general'')) \<and>
   dispatch ''T1'' (Some (event [] ''U1'' ''D1'' ''JOIN #general'')) = [] \<and>
   dispatch ''T1'' (Some (event [] ''U1'' ''D1'' ''join #general'')) =
     [joinChannels ''T1'' ''join #general'' ''D1''] \<and>
   HandleMessage env1 (rawEvent ''T1'' (event [] ''U1'' ''D1'' ''JOIN #general'')) bot1 =
     (countMessage ''T1'' acmeSub bot1, [CacheRead ''T1'']) \<and>
   stats (fst (HandleMessage env1
                 (rawEvent ''T1'' (event [] ''U1'' ''D1'' ''JOIN #general'')) bot1)) =
     (stats bot1)(''T1'' \<mapsto> \<lparr>statTeam = ''1'', Messages = 1\<rparr>)"
proof -
  have lk: "lookupSubscription env1 bot1 ''T1'' = (Some acmeSub, bot1, [CacheRead ''T1''])"
    by (simp add: lookupSubscription_def relevantTeam_def bot1_def)
  have lt: "ToLower (unicodeLower env1) ''JOIN #general'' = ''join #general''"
    by (simp add: ToLower_def isASCII_def lowerASCII_def)
  have lower: "dispatch ''T1'' (Some (event [] ''U1'' ''D1'' ''join #general'')) =
     [joinChannels ''T1'' ''join #general'' ''D1'']"
    by (simp add: dispatch_def isDirect_def Let_def event_def)
  show ?thesis
    using lt lower miscased_command_counted_not_handled
      [of "rawEvent ''T1'' (event [] ''U1'' ''D1'' ''JOIN #general'')" "''T1''"
          "Some (event [] ''U1'' ''D1'' ''JOIN #general'')" env1 bot1 acmeSub bot1
          "[CacheRead ''T1'']" "''JOIN #general''" "''join #general''", OF _ _ _ _ lk]
    by (simp add: rawEvent_def event_def acmeSub_def acme_def bot1_def isDirect_def
          countMessage_def Let_def)
qed

section \<open>The message counter\<close>






section \<open>Flushing the counters\<close>

lemma persistAttempts_simps [simp]:
  "persistAttempts [] = []"
  "persistAttempts (RepoUpdateStatistics v # es) = v # persistAttempts es"
  "persistAttempts (Log l # es) = persistAttempts es"
  "persistAttempts (xs @ ys) = persistAttempts xs @ persistAttempts ys"
  by (simp_all add: persistAttempts_def)

lemma storeLoop_stats:
  assumes "distinct ks" and "set ks \<subseteq> dom st"
  shows "fst (storeLoop ok st ks) k =
           (if k \<in> set (takeWhile ok ks) then map_option Reset (st k) else st k)"
  using assms
proof (induction ks arbitrary: st)
  case Nil
  then show ?case by simp
next
  case (Cons a ks)
  then obtain v where v: "st a = Some v" by auto
  have dk: "distinct ks" and ak: "a \<notin> set ks" using Cons.prems(1) by simp_all
  have sub: "set ks \<subseteq> dom (st(a \<mapsto> Reset v))" using Cons.prems(2) by auto
  show ?case
  proof (cases "ok a")
    case False
    with v show ?thesis by simp
  next
    case True
    have ih: "fst (storeLoop ok (st(a \<mapsto> Reset v)) ks) k =
           (if k \<in> set (takeWhile ok ks) then map_option Reset ((st(a \<mapsto> Reset v)) k)
            else (st(a \<mapsto> Reset v)) k)"
      by (rule Cons.IH [OF dk sub])
    have step: "fst (storeLoop ok st (a # ks)) = fst (storeLoop ok (st(a \<mapsto> Reset v)) ks)"
      using True v by (simp add: split_beta)
    have notin: "a \<notin> set (takeWhile ok ks)"
      using ak by (auto dest: set_takeWhileD)
    show ?thesis
      unfolding step ih using True v notin by auto
  qed
qed

lemma storeLoop_attempts:
  assumes "distinct ks" and "set ks \<subseteq> dom st"
  shows "map Some (persistAttempts (snd (storeLoop ok st ks))) =
           map st (take (Suc (length (takeWhile ok ks))) ks)"
  using assms
proof (induction ks arbitrary: st)
  case Nil
  then show ?case by simp
next
  case (Cons a ks)
  then obtain v where v: "st a = Some v" by auto
  have dk: "distinct ks" and ak: "a \<notin> set ks" using Cons.prems(1) by simp_all
  have sub: "set ks \<subseteq> dom (st(a \<mapsto> Reset v))" using Cons.prems(2) by auto
  show ?case
  proof (cases "ok a")
    case False
    with v show ?thesis by simp
  next
    case True
    have ih: "map Some (persistAttempts (snd (storeLoop ok (st(a \<mapsto> Reset v)) ks))) =
            map (st(a \<mapsto> Reset v)) (take (Suc (length (takeWhile ok ks))) ks)"
      by (rule Cons.IH [OF dk sub])
    have same: "map (st(a \<mapsto> Reset v)) (take (Suc (length (takeWhile ok ks))) ks) =
            map st (take (Suc (length (takeWhile ok ks))) ks)"
      using ak by (auto dest: in_set_takeD)
    have step: "snd (storeLoop ok st (a # ks)) =
            RepoUpdateStatistics v # snd (storeLoop ok (st(a \<mapsto> Reset v)) ks)"
      using True v by (simp add: split_beta)
    have "map Some (persistAttempts (snd (storeLoop ok st (a # ks)))) =
            Some v # map st (take (Suc (length (takeWhile ok ks))) ks)"
      unfolding step persistAttempts_simps list.map ih same ..
    then show ?thesis using True v by simp
  qed
qed

lemma storeLoop_warning:
  assumes "set ks \<subseteq> dom st"
  shows "(Log WarnStoreStatistics \<in> set (snd (storeLoop ok st ks))) = (takeWhile ok ks \<noteq> ks)"
  using assms
proof (induction ks arbitrary: st)
  case Nil
  then show ?case by simp
next
  case (Cons a ks)
  then obtain v where v: "st a = Some v" by auto
  have sub: "set ks \<subseteq> dom (st(a \<mapsto> Reset v))" using Cons.prems by auto
  show ?case
  proof (cases "ok a")
    case False
    with v show ?thesis by simp
  next
    case True
    have ih: "(Log WarnStoreStatistics \<in> set (snd (storeLoop ok (st(a \<mapsto> Reset v)) ks))) =
            (takeWhile ok ks \<noteq> ks)"
      by (rule Cons.IH [OF sub])
    have step: "snd (storeLoop ok st (a # ks)) =
            RepoUpdateStatistics v # snd (storeLoop ok (st(a \<mapsto> Reset v)) ks)"
      using True v by (simp add: split_beta)
    have "(Log WarnStoreStatistics \<in> set (snd (storeLoop ok st (a # ks)))) =
            (takeWhile ok ks \<noteq> ks)"
      unfolding step using ih by simp
    then show ?thesis using True by simp
  qed
qed

text \<open>
  C3, as the claim states it, fails: \<open>storeStatistics\<close> does not attempt to persist every
  counter. With the counters of \<open>T1\<close> and \<open>T2\<close> visited in this order and the persist
  of \<open>T1\<close> failing, the loop returns: the record of \<open>T2\<close> is never handed to
  \<open>UpdateStatistics\<close>, although that call would succeed.
\<close>

theorem flush_skips_after_failure_counterexample:
  "stats twoCounters ''T2'' = Some \<lparr>statTeam = ''2'', Messages = 7\<rparr> \<and>
   storeStatistics (\<lambda>k. k \<noteq> ''T1'') [''T1'', ''T2''] twoCounters =
     (twoCounters, [RepoUpdateStatistics \<lparr>statTeam = ''1'', Messages = 5\<rparr>,
                    Log WarnStoreStatistics]) \<and>
   \<lparr>statTeam = ''2'', Messages = 7\<rparr> \<notin>
     set (persistAttempts
            (snd (storeStatistics (\<lambda>k. k \<noteq> ''T1'') [''T1'', ''T2''] twoCounters)))"
  by (simp add: storeStatistics_def twoCounters_def Reset_def)

text \<open>
  C3, amended. \<open>storeStatistics\<close> walks the counters in the order of the iteration and
  stops at the first persist that fails. The records handed to \<open>UpdateStatistics\<close> are the
  counters up to and including that one, as they were before the call. Every counter
  persisted before the failure is reset to 0; the counter whose persist failed and every
  counter after it keep their counts for the next cycle. A warning is logged exactly when a
  persist failed.
\<close>

theorem flush_stops_at_first_failure:
  assumes "distinct order" and "set order = dom (stats b)"
    and "persisted = takeWhile ok order"
    and "storeStatistics ok order b = (b', tr)"
  shows "map Some (persistAttempts tr) = map (stats b) (take (Suc (length persisted)) order) \<and>
         (\<forall>k \<in> set persisted. \<exists>v. stats b k = Some v \<and> stats b' k = Some (v\<lparr>Messages := 0\<rparr>)) \<and>
         (\<forall>k. k \<notin> set persisted \<longrightarrow> stats b' k = stats b k) \<and>
         ((Log WarnStoreStatistics \<in> set tr) = (persisted \<noteq> order))"
proof -
  have sub: "set order \<subseteq> dom (stats b)" using assms(2) by simp
  have b': "stats b' = fst (storeLoop ok (stats b) order)"
    and tr: "tr = snd (storeLoop ok (stats b) order)"
    using assms(4) by (auto simp: storeStatistics_def split_beta)
  have 1: "map Some (persistAttempts tr) = map (stats b) (take (Suc (length persisted)) order)"
    unfolding tr assms(3) using assms(1) sub by (rule storeLoop_attempts)
  have st: "\<And>k. stats b' k =
      (if k \<in> set persisted then map_option Reset (stats b k) else stats b k)"
    unfolding b' assms(3) using assms(1) sub by (rule storeLoop_stats)
  have 2: "\<forall>k \<in> set persisted. \<exists>v. stats b k = Some v \<and> stats b' k = Some (v\<lparr>Messages := 0\<rparr>)"
  proof
    fix k assume k: "k \<in> set persisted"
    then have "k \<in> set order" unfolding assms(3) by (auto dest: set_takeWhileD)
    with sub obtain v where "stats b k = Some v" by auto
    with k st [of k] show "\<exists>v. stats b k = Some v \<and> stats b' k = Some (v\<lparr>Messages := 0\<rparr>)"
      by (simp add: Reset_def)
  qed
  have 3: "\<forall>k. k \<notin> set persisted \<longrightarrow> stats b' k = stats b k"
    using st by simp
  have 4: "(Log WarnStoreStatistics \<in> set tr) = (persisted \<noteq> order)"
    unfolding tr assms(3) using sub by (rule storeLoop_warning)
  from 1 2 3 4 show ?thesis by blast
qed

theorem flush_stops_at_first_failure_witness:
  "storeStatistics (\<lambda>k. k \<noteq> ''T2'') [''T1'', ''T2''] twoCounters =
     (twoCounters\<lparr>stats := [''T1'' \<mapsto> \<lparr>statTeam = ''1'', Messages = 0\<rparr>,
                              ''T2'' \<mapsto> \<lparr>statTeam = ''2'', Messages = 7\<rparr>]\<rparr>,
      [RepoUpdateStatistics \<lparr>statTeam = ''1'', Messages = 5\<rparr>,
       RepoUpdateStatistics \<lparr>statTeam = ''2'', Messages = 7\<rparr>, Log WarnStoreStatistics]) \<and>
   takeWhile (\<lambda>k. k \<noteq> ''T2'') [''T1'', ''T2''] = [''T1''] \<and>
   stats (fst (storeStatistics (\<lambda>k. k \<noteq> ''T2'') [''T1'', ''T2''] twoCounters)) ''T2'' =
     stats twoCounters ''T2''"
proof -
  have d: "distinct [''T1'', ''T2'']" by simp
  have s: "set [''T1'', ''T2''] = dom (stats twoCounters)"
    by (auto simp: twoCounters_def)
  have r: "storeStatistics (\<lambda>k. k \<noteq> ''T2'') [''T1'', ''T2''] twoCounters =
     (twoCounters\<lparr>stats := [''T1'' \<mapsto> \<lparr>statTeam = ''1'', Messages = 0\<rparr>,
                              ''T2'' \<mapsto> \<lparr>statTeam = ''2'', Messages = 7\<rparr>]\<rparr>,
      [RepoUpdateStatistics \<lparr>statTeam = ''1'', Messages = 5\<rparr>,
       RepoUpdateStatistics \<lparr>statTeam = ''2'', Messages = 7\<rparr>, Log WarnStoreStatistics])"
    by (simp add: storeStatistics_def twoCounters_def Reset_def fun_upd_twist)
  show ?thesis
    using flush_stops_at_first_failure [OF d s refl r] r by simp
qed

section \<open>What the trigger patterns match\<close>

lemma matchHere_Class_run:
  assumes "list_all p g" and "lo \<le> length g" and "length g \<le> hi"
    and "matchHere as (if g = [] then prev else Some (last g)) rest"
  shows "matchHere (Class p lo hi # as) prev (g @ rest)"
  using assms
proof (induction g arbitrary: prev lo hi)
  case Nil
  then show ?case by simp
next
  case (Cons c g)
  have "matchHere (Class p (lo - 1) (hi - 1) # as) (Some c) (g @ rest)"
  proof (rule Cons.IH)
    show "list_all p g" using Cons.prems(1) by simp
    show "lo - 1 \<le> length g" using Cons.prems(2) by simp
    show "length g \<le> hi - 1" using Cons.prems(3) by simp
    show "matchHere as (if g = [] then Some c else Some (last g)) rest"
      using Cons.prems(4) by (cases "g = []") simp_all
  qed
  moreover have "0 < hi" and "p c" using Cons.prems(1,3) by simp_all
  ultimately show ?case by simp
qed

lemma matchFrom_append:
  assumes "matchHere re (if pre = [] then prev else Some (last pre)) s"
  shows "matchFrom re prev (pre @ s)"
  using assms
proof (induction pre arbitrary: prev)
  case Nil
  then show ?case by (cases s) simp_all
next
  case (Cons c pre)
  have "matchHere re (if pre = [] then Some c else Some (last pre)) s"
    using Cons.prems by (cases "pre = []") simp_all
  then have "matchFrom re (Some c) (pre @ s)"
    by (rule Cons.IH)
  then show ?case by simp
qed

lemma isHex_isWord: "isHex c \<Longrightarrow> isWord c"
  by (auto simp: isHex_def isWord_def Let_def)

lemma isDigit_isWord: "isDigit c \<Longrightarrow> isWord c"
  by (auto simp: isDigit_def isWord_def Let_def)

lemma wordBefore_last:
  assumes "list_all p g" and "g \<noteq> []" and "\<And>c. p c \<Longrightarrow> isWord c"
  shows "wordBefore (Some (last g))"
proof -
  have "last g \<in> set g" using assms(2) by simp
  with assms(1) have "p (last g)" by (simp add: list_all_iff)
  with assms(3) show ?thesis by (simp add: wordBefore_def)
qed

lemma wordAfter_run:
  assumes "list_all p g" and "g \<noteq> []" and "\<And>c. p c \<Longrightarrow> isWord c"
  shows "wordAfter (g @ rest)"
  using assms by (cases g) (simp_all add: wordAfter_def)

lemma not_wordBefore:
  assumes "pre = [] \<or> \<not> isWord (last pre)"
  shows "\<not> wordBefore (if pre = [] then None else Some (last pre))"
  using assms by (auto simp: wordBefore_def)

lemma not_wordAfter:
  assumes "post = [] \<or> \<not> isWord (hd post)"
  shows "\<not> wordAfter post"
  using assms by (cases post) (auto simp: wordAfter_def)

lemma digest_matches:
  assumes "0 < n" and "length run = n" and "list_all isHex run"
    and "pre = [] \<or> \<not> isWord (last pre)" and "post = [] \<or> \<not> isWord (hd post)"
  shows "MatchString [WordBoundary, Class isHex n n, WordBoundary] (pre @ run @ post)"
proof -
  have ne: "run \<noteq> []" using assms(1,2) by auto
  have b1: "atBoundary (if pre = [] then None else Some (last pre)) (run @ post)"
    using not_wordBefore [OF assms(4)] wordAfter_run [OF assms(3) ne isHex_isWord]
    by (simp add: atBoundary_def)
  have b2: "atBoundary (Some (last run)) post"
    using not_wordAfter [OF assms(5)] wordBefore_last [OF assms(3) ne isHex_isWord]
    by (simp add: atBoundary_def)
  have "matchHere [WordBoundary] (if run = [] then (if pre = [] then None else Some (last pre))
          else Some (last run)) post"
    using ne b2 by simp
  then have "matchHere [Class isHex n n, WordBoundary]
          (if pre = [] then None else Some (last pre)) (run @ post)"
    using assms(2,3) by (intro matchHere_Class_run) simp_all
  with b1 have "matchHere [WordBoundary, Class isHex n n, WordBoundary]
          (if pre = [] then None else Some (last pre)) (run @ post)"
    by simp
  then show ?thesis
    unfolding MatchString_def by (rule matchFrom_append)
qed

lemma group_then:
  assumes "list_all isDigit g" and "1 \<le> length g" and "length g \<le> 3"
    and "matchHere as (Some (last g)) rest"
  shows "matchHere (Class isDigit 1 3 # as) prev (g @ rest)"
proof (rule matchHere_Class_run)
  show "list_all isDigit g" by (rule assms(1))
  show "1 \<le> length g" by (rule assms(2))
  show "length g \<le> 3" by (rule assms(3))
  have "g \<noteq> []" using assms(2) by auto
  then show "matchHere as (if g = [] then prev else Some (last g)) rest"
    using assms(4) by simp
qed

lemma dot_then:
  assumes "matchHere as (Some CHR ''.'') rest"
  shows "matchHere (Class isDot 1 1 # as) prev (''.'' @ rest)"
  using assms by (simp add: isDot_def)

lemma ip_matches:
  assumes g1: "list_all isDigit g1 \<and> 1 \<le> length g1 \<and> length g1 \<le> 3"
    and g2: "list_all isDigit g2 \<and> 1 \<le> length g2 \<and> length g2 \<le> 3"
    and g3: "list_all isDigit g3 \<and> 1 \<le> length g3 \<and> length g3 \<le> 3"
    and g4: "list_all isDigit g4 \<and> 1 \<le> length g4 \<and> length g4 \<le> 3"
    and pre: "pre = [] \<or> \<not> isWord (last pre)" and post: "post = [] \<or> \<not> isWord (hd post)"
  shows "MatchString ipReg (pre @ g1 @ ''.'' @ g2 @ ''.'' @ g3 @ ''.'' @ g4 @ post)"
proof -
  have ne1: "g1 \<noteq> []" and ne4: "g4 \<noteq> []" using g1 g4 by auto
  have d1: "list_all isDigit g1" and d4: "list_all isDigit g4" using g1 g4 by simp_all
  have b1: "atBoundary (if pre = [] then None else Some (last pre))
              (g1 @ ''.'' @ g2 @ ''.'' @ g3 @ ''.'' @ g4 @ post)"
    using not_wordBefore [OF pre] wordAfter_run [OF d1 ne1 isDigit_isWord]
    by (simp add: atBoundary_def)
  have b2: "atBoundary (Some (last g4)) post"
    using not_wordAfter [OF post] wordBefore_last [OF d4 ne4 isDigit_isWord]
    by (simp add: atBoundary_def)
  have "matchHere [WordBoundary] (Some (last g4)) post" using b2 by simp
  then have "matchHere [Class isDigit 1 3, WordBoundary] (Some CHR ''.'') (g4 @ post)"
    using g4 by (intro group_then) simp_all
  then have "matchHere [Class isDot 1 1, Class isDigit 1 3, WordBoundary] (Some (last g3))
               (''.'' @ g4 @ post)"
    by (rule dot_then)
  then have "matchHere [Class isDigit 1 3, Class isDot 1 1, Class isDigit 1 3, WordBoundary]
               (Some CHR ''.'') (g3 @ ''.'' @ g4 @ post)"
    using g3 by (intro group_then) simp_all
  then have "matchHere [Class isDot 1 1, Class isDigit 1 3, Class isDot 1 1, Class isDigit 1 3,
               WordBoundary] (Some (last g2)) (''.'' @ g3 @ ''.'' @ g4 @ post)"
    by (rule dot_then)
  then have "matchHere [Class isDigit 1 3, Class isDot 1 1, Class isDigit 1 3, Class isDot 1 1,
               Class isDigit 1 3, WordBoundary] (Some CHR ''.'')
               (g2 @ ''.'' @ g3 @ ''.'' @ g4 @ post)"
    using g2 by (intro group_then) simp_all
  then have "matchHere [Class isDot 1 1, Class isDigit 1 3, Class isDot 1 1, Class isDigit 1 3,
               Class isDot 1 1, Class isDigit 1 3, WordBoundary] (Some (last g1))
               (''.'' @ g2 @ ''.'' @ g3 @ ''.'' @ g4 @ post)"
    by (rule dot_then)
  then have "matchHere [Class isDigit 1 3, Class isDot 1 1, Class isDigit 1 3, Class isDot 1 1,
               Class isDigit 1 3, Class isDot 1 1, Class isDigit 1 3, WordBoundary]
               (if pre = [] then None else Some (last pre))
               (g1 @ ''.'' @ g2 @ ''.'' @ g3 @ ''.'' @ g4 @ post)"
    using g1 by (intro group_then) simp_all
  with b1 have "matchHere ipReg (if pre = [] then None else Some (last pre))
               (g1 @ ''.'' @ g2 @ ''.'' @ g3 @ ''.'' @ g4 @ post)"
    by (simp add: ipReg_def)
  then show ?thesis
    unfolding MatchString_def by (rule matchFrom_append)
qed


text \<open>
  C4, as the claim states it, fails: a neighbour that is no hex digit is not enough. In
  \<open>xd41d8cd98f00b204e9800998ecf8427e\<close> the run of 32 hex characters follows \<open>x\<close>, which is
  no hex digit but is a word character, so \<open>\b\<close> does not hold before the run: \<open>md5Reg\<close>
  does not match and the message, not a command, is not a trigger.
\<close>

theorem digest_counterexample:
  "list_all isHex md5Text \<and> length md5Text = 32 \<and> \<not> isHex CHR ''x'' \<and>
   S (Some (event [] ''U1'' ''C1'' (''x'' @ md5Text))) ''text'' = ''x'' @ md5Text \<and>
   \<not> MatchString md5Reg (''x'' @ md5Text) \<and>
   \<not> isInternalCommand (unicodeLower env1) (Some (event [] ''U1'' ''C1'' (''x'' @ md5Text))) \<and>
   \<not> pushDecision (unicodeLower env1) (Some (event [] ''U1'' ''C1'' (''x'' @ md5Text)))"
  by (simp add: pushDecision_def isInternalCommand_def isDirect_def Let_def ToLower_def
        isASCII_def lowerASCII_def regexp_defs event_def md5Text_def env1_def)

text \<open>
  C4, amended. A text with a run of exactly 32, 40 or 64 hex characters (either case) that
  stands at a word boundary on both sides (the character before it and the character after
  it are not ASCII letters, digits or underscore, or the run is at the start or the end of
  the text) is matched by the pattern of that length, and an event with empty subtype that
  is no internal command and carries that text is a trigger.
\<close>

theorem digest_is_trigger:
  assumes "S ev ''subtype'' = []" and "\<not> isInternalCommand ul ev"
    and "S ev ''text'' = pre @ run @ post"
    and "list_all isHex run"
    and "length run = 32 \<or> length run = 40 \<or> length run = 64"
    and "pre = [] \<or> \<not> isWord (last pre)" and "post = [] \<or> \<not> isWord (hd post)"
  shows "(length run = 32 \<longrightarrow> MatchString md5Reg (S ev ''text'')) \<and>
         (length run = 40 \<longrightarrow> MatchString sha1Reg (S ev ''text'')) \<and>
         (length run = 64 \<longrightarrow> MatchString sha256Reg (S ev ''text'')) \<and>
         pushDecision ul ev"
proof -
  have m: "MatchString [WordBoundary, Class isHex (length run) (length run), WordBoundary]
             (S ev ''text'')"
    unfolding assms(3) using assms(5) by (intro digest_matches assms(4,6,7)) auto
  have 1: "length run = 32 \<longrightarrow> MatchString md5Reg (S ev ''text'')"
    using m by (auto simp: md5Reg_def)
  have 2: "length run = 40 \<longrightarrow> MatchString sha1Reg (S ev ''text'')"
    using m by (auto simp: sha1Reg_def)
  have 3: "length run = 64 \<longrightarrow> MatchString sha256Reg (S ev ''text'')"
    using m by (auto simp: sha256Reg_def)
  have "MatchString md5Reg (S ev ''text'') \<or> MatchString sha1Reg (S ev ''text'') \<or>
        MatchString sha256Reg (S ev ''text'')"
    using 1 2 3 assms(5) by blast
  then have "pushDecision ul ev"
    using assms(1,2) by (auto simp: pushDecision_def Let_def)
  with 1 2 3 show ?thesis by blast
qed

theorem digest_is_trigger_witness:
  "MatchString sha1Reg (''hash: '' @ sha1Text @ '', please check'') \<and>
   pushDecision (unicodeLower env1)
     (Some (event [] ''U1'' ''C1'' (''hash: '' @ sha1Text @ '', please check'')))"
proof -
  have nc: "\<not> isInternalCommand (unicodeLower env1)
              (Some (event [] ''U1'' ''C1'' (''hash: '' @ sha1Text @ '', please check'')))"
    by (simp add: isInternalCommand_def isDirect_def Let_def event_def)
  have hx: "list_all isHex sha1Text"
    by (simp add: sha1Text_def isHex_def)
  have ln: "length sha1Text = 40" by (simp add: sha1Text_def)
  have b: "\<not> isWord (last ''hash: '')" "\<not> isWord (hd '', please check'')"
    by (simp_all add: isWord_def)
  show ?thesis
    using digest_is_trigger
      [of "Some (event [] ''U1'' ''C1'' (''hash: '' @ sha1Text @ '', please check''))"
          "unicodeLower env1" "''hash: ''" sha1Text "'', please check''", OF _ nc _ hx]
      ln b
    by (simp add: event_def)
qed

text \<open>
  C8, as the claim states it, fails: \<open>v1.2.3.4\<close> contains four dot-separated groups of
  one digit each, but the first digit follows the word character \<open>v\<close>, so \<open>\b\<close> does
  not hold there: \<open>ipReg\<close> does not match and the message is not a trigger.
\<close>

theorem ip_counterexample:
  "list_all isDigit ''1'' \<and> list_all isDigit ''2'' \<and> list_all isDigit ''3'' \<and>
   list_all isDigit ''4'' \<and>
   S (Some (event [] ''U1'' ''C1'' ''v1.2.3.4'')) ''text'' =
     ''v'' @ ''1'' @ ''.'' @ ''2'' @ ''.'' @ ''3'' @ ''.'' @ ''4'' \<and>
   \<not> MatchString ipReg ''v1.2.3.4'' \<and>
   \<not> isInternalCommand (unicodeLower env1) (Some (event [] ''U1'' ''C1'' ''v1.2.3.4'')) \<and>
   \<not> pushDecision (unicodeLower env1) (Some (event [] ''U1'' ''C1'' ''v1.2.3.4''))"
  by (simp add: pushDecision_def isInternalCommand_def isDirect_def Let_def ToLower_def
        isASCII_def lowerASCII_def regexp_defs event_def env1_def)

text \<open>
  C8, amended. \<open>ipReg\<close> matches every text that contains four groups of 1 to 3 digits
  separated by dots, the whole standing at a word boundary on both sides (not directly
  preceded or followed by an ASCII letter, digit or underscore). The values of the groups
  are not checked: \<open>999.999.999.999\<close> matches. An event with empty subtype that is no
  internal command and carries such a text is a trigger.
\<close>

theorem ip_is_trigger:
  assumes "S ev ''subtype'' = []" and "\<not> isInternalCommand ul ev"
    and "S ev ''text'' = pre @ g1 @ ''.'' @ g2 @ ''.'' @ g3 @ ''.'' @ g4 @ post"
    and "\<forall>g \<in> {g1, g2, g3, g4}. list_all isDigit g \<and> 1 \<le> length g \<and> length g \<le> 3"
    and "pre = [] \<or> \<not> isWord (last pre)" and "post = [] \<or> \<not> isWord (hd post)"
  shows "MatchString ipReg (S ev ''text'') \<and> pushDecision ul ev"
proof -
  have "MatchString ipReg (S ev ''text'')"
    unfolding assms(3) using assms(4) by (intro ip_matches assms(5,6)) simp_all
  then show ?thesis
    using assms(1,2) by (simp add: pushDecision_def Let_def)
qed

theorem ip_is_trigger_witness:
  "MatchString ipReg ''999.999.999.999'' \<and>
   pushDecision (unicodeLower env1) (Some (event [] ''U1'' ''C1'' ''999.999.999.999''))"
proof -
  have nc: "\<not> isInternalCommand (unicodeLower env1)
              (Some (event [] ''U1'' ''C1'' ''999.999.999.999''))"
    by (simp add: isInternalCommand_def isDirect_def Let_def event_def)
  have d: "list_all isDigit ''999''" by (simp add: isDigit_def)
  show ?thesis
    using ip_is_trigger
      [of "Some (event [] ''U1'' ''C1'' ''999.999.999.999'')" "unicodeLower env1"
          "[]" "''999''" "''999''" "''999''" "''999''" "[]", OF _ nc] d
    by (simp add: event_def)
qed

end
